theory Spec2Isabelle
  imports Complex_Main
begin

section \<open>Hexagonal cell areas: the data model\<close>

text \<open>
  The module \<^verbatim>\<open>generate_hex.py\<close> lays a grid of pointy-top hexagons over a rectangle
  (\<^verbatim>\<open>calculate_polygons\<close>), numbers them (\<^verbatim>\<open>generate_cell_areas\<close>) and picks the cell
  nearest to a transmitter together with its neighbours (\<^verbatim>\<open>find_closest_cell_areas\<close>).

  Python floats are read as real numbers throughout: \<open>+\<close>, \<open>*\<close>, \<open>tan\<close> and \<open>cos\<close> are
  the exact operations, so nothing below speaks about rounding.
  A Python call either returns, raises, or runs forever; its result type is
  \<open>(error + 'a) option\<close>, with \<open>None\<close> for a call that does not return and \<open>Inl\<close> for an
  exception.
\<close>

type_synonym point = "real \<times> real"

type_synonym ring = "point list"

datatype error = ConfigurationError | EmptyTessellationError | IndexError

text \<open>
  A hexagon feature as \<^verbatim>\<open>generate_cell_areas\<close> builds it:
  \<^verbatim>\<open>{'geometry': {'coordinates': [poly]}, 'centroid': ..., 'properties': {'site_id': id_num}}\<close>.
  The constant entries (\<^verbatim>\<open>'type'\<close>) are left out.
\<close>

record cell =
  coordinates :: "ring list"
  centroid :: point
  site_id :: int

section \<open>calculate_polygons\<close>

definition radians :: "real \<Rightarrow> real" where
  "radians d = d * pi / 180"

text \<open>The seven vertices of one hexagon, anchored at \<open>(startx, starty)\<close> (lines 139 to 158).\<close>

definition poly_at :: "real \<Rightarrow> real \<Rightarrow> real \<Rightarrow> real \<Rightarrow> real \<Rightarrow> real \<Rightarrow> ring" where
  "poly_at startx starty p b w h =
     [(startx, starty + p),
      (startx, starty + (3 * p)),
      (startx + b, starty + h),
      (startx + w, starty + (3 * p)),
      (startx + w, starty + p),
      (startx + b, starty),
      (startx, starty + p)]"

text \<open>
  The inner loop \<^verbatim>\<open>while startx < endx\<close> (lines 138 to 163). It may run forever
  (\<open>w \<le> 0\<close>), so it is a partial function: \<open>None\<close> is a loop that does not end. Of the
  loop's variables only \<open>polygons\<close> is read afterwards (\<open>startx\<close> is set anew for each row,
  \<open>counter\<close> is never read).
\<close>

partial_function (option) calculate_polygons_inner ::
  "real \<Rightarrow> real \<Rightarrow> real \<Rightarrow> real \<Rightarrow> real \<Rightarrow> real \<Rightarrow> real \<Rightarrow> ring list \<Rightarrow> ring list option" where
  "calculate_polygons_inner startx starty endx p b w h polygons =
     (if startx < endx
      then calculate_polygons_inner (startx + w) starty endx p b w h
             (polygons @ [poly_at startx starty p b w h])
      else Some polygons)"

text \<open>
  The outer loop \<^verbatim>\<open>while starty < endy\<close> (lines 130 to 166); \<open>row\<close> starts at 1 and even
  rows are shifted by \<open>xoffset\<close>.
\<close>

partial_function (option) calculate_polygons_outer ::
  "real \<Rightarrow> int \<Rightarrow> real \<Rightarrow> real \<Rightarrow> real \<Rightarrow> real \<Rightarrow> real \<Rightarrow> real \<Rightarrow> real \<Rightarrow> real \<Rightarrow> real
     \<Rightarrow> ring list \<Rightarrow> ring list option" where
  "calculate_polygons_outer starty row origx endx endy xoffset yoffset p b w h polygons =
     (if starty < endy
      then Option.bind
             (calculate_polygons_inner
                (if row mod 2 = 0 then origx + xoffset else origx) starty endx p b w h polygons)
             (\<lambda>polygons'.
                calculate_polygons_outer (starty + yoffset) (row + 1)
                  origx endx endy xoffset yoffset p b w h polygons')
      else Some polygons)"

definition calculate_polygons ::
  "real \<Rightarrow> real \<Rightarrow> real \<Rightarrow> real \<Rightarrow> real \<Rightarrow> (error + ring list) option" where
  "calculate_polygons startx starty endx endy radius =
     (let sl = (2 * radius) * tan (pi / 6);
          p = sl * 0.5;
          b = sl * cos (radians 30);
          w = b * 2;
          h = 2 * sl;
          startx = startx - w;
          starty = starty - h;
          endx = endx + w;
          endy = endy + h;
          origx = startx;
          xoffset = b;
          yoffset = 3 * p
      in map_option Inr
           (calculate_polygons_outer starty 1 origx endx endy xoffset yoffset p b w h []))"

section \<open>The geometry and index libraries\<close>

text \<open>
  The source calls a geometry library (\<^verbatim>\<open>shapely\<close>) and a spatial index (\<^verbatim>\<open>rtree\<close>); neither is
  part of the repository. The edges of a ring and the cross product of two points are the
  ingredients of the centroid below.
\<close>

fun ring_edges :: "ring \<Rightarrow> (point \<times> point) list" where
  "ring_edges (u # v # rest) = (u, v) # ring_edges (v # rest)"
| "ring_edges _ = []"

definition cross :: "point \<Rightarrow> point \<Rightarrow> real" where
  "cross u v = fst u * snd v - fst v * snd u"

definition signed_area :: "ring \<Rightarrow> real" where
  "signed_area r = (\<Sum>e\<leftarrow>ring_edges r. cross (fst e) (snd e)) / 2"

text \<open>
  Modelled from the spec: \<^verbatim>\<open>Polygon(poly).centroid\<close> belongs to the geometry library, which
  is not part of the repository. The spec asks for "a true polygon-centroid formula
  (geometric center of mass of the hexagon, not the average of its 6 vertices)"; this is
  the area-weighted centroid of a closed ring. It is the library's value for a ring that
  encloses an area, which every hexagon of a positive radius does.
\<close>

definition polygon_centroid :: "ring \<Rightarrow> point" where
  "polygon_centroid r =
     (let a = signed_area r
      in ((\<Sum>e\<leftarrow>ring_edges r. (fst (fst e) + fst (snd e)) * cross (fst e) (snd e)) / (6 * a),
          (\<Sum>e\<leftarrow>ring_edges r. (snd (fst e) + snd (snd e)) * cross (fst e) (snd e)) / (6 * a)))"


text \<open>The Euclidean distance of two points.\<close>

definition distance :: "point \<Rightarrow> point \<Rightarrow> real" where
  "distance u v = sqrt ((fst u - fst v)\<^sup>2 + (snd u - snd v)\<^sup>2)"

text \<open>
  Modelled from the spec: the spatial index (\<^verbatim>\<open>rtree.index.Index\<close>) is a third-party library.
  The spec: "\<^verbatim>\<open>build(cells) -> index\<close> over centroid coordinates". The index is the list of
  its entries, a point with the stored object, in insertion order; the source gives every
  entry the id 0 and asks for the stored objects (\<^verbatim>\<open>objects='raw'\<close>), so the id is left out.
\<close>

type_synonym 'a index = "(point \<times> 'a) list"

definition index_insert :: "'a index \<Rightarrow> point \<Rightarrow> 'a \<Rightarrow> 'a index" where
  "index_insert idx coords obj = idx @ [(coords, obj)]"

text \<open>
  Modelled from the spec: \<^verbatim>\<open>idx.nearest\<close> belongs to the index library. The spec:
  "\<^verbatim>\<open>nearest(index, queryPoint, k)\<close> -> ordered sequence of up to k Cells by ascending centroid
  distance to queryPoint", with ties "resolved by ascending site_id (deterministic,
  index-build order)": a stable sort of the entries by distance, cut after \<open>k\<close>.
\<close>

definition nearest :: "'a index \<Rightarrow> point \<Rightarrow> nat \<Rightarrow> 'a list" where
  "nearest idx q k = map snd (take k (sort_key (\<lambda>e. distance (fst e) q) idx))"

section \<open>find_closest_cell_areas\<close>

text \<open>
  Lines 194 to 226; \<open>build_index\<close> is the insertion loop of lines 196 to 198, and the
  transmitter is the point \<^verbatim>\<open>geom_shape.centroid\<close>. Every \<^verbatim>\<open>[0]\<close> of the source is a
  branch that raises \<^verbatim>\<open>IndexError\<close> on an empty list; the slice \<^verbatim>\<open>[1:7]\<close> never raises.
\<close>

definition build_index :: "cell list \<Rightarrow> cell index" where
  "build_index hexagons = foldl (\<lambda>idx site. index_insert idx (centroid site) site) [] hexagons"

definition find_closest_cell_areas :: "cell list \<Rightarrow> point \<Rightarrow> error + cell list \<times> cell list" where
  "find_closest_cell_areas hexagons transmitter =
     (let idx = build_index hexagons
      in case nearest idx transmitter 1 of
           [] \<Rightarrow> Inl IndexError
         | cell_area # _ \<Rightarrow>
             (case coordinates cell_area of
                [] \<Rightarrow> Inl IndexError
              | exterior # _ \<Rightarrow>
                  (let closest_cell_area_centroid = polygon_centroid exterior;
                       all_closest_sites = nearest idx closest_cell_area_centroid 7;
                       interfering_cell_areas = take 6 (drop 1 all_closest_sites)
                   in case all_closest_sites of
                        [] \<Rightarrow> Inl IndexError
                      | first_site # _ \<Rightarrow> Inr ([first_site], interfering_cell_areas))))"

section \<open>generate_cell_areas\<close>

text \<open>The loop of lines 306 to 321: one feature per polygon, numbered by \<open>id_num\<close>.\<close>

fun hexagons_loop :: "ring list \<Rightarrow> int \<Rightarrow> cell list \<Rightarrow> cell list" where
  "hexagons_loop [] id_num hexagons = hexagons"
| "hexagons_loop (poly # polygon) id_num hexagons =
     hexagons_loop polygon (id_num + 1)
       (hexagons @ [\<lparr>coordinates = [poly], centroid = polygon_centroid poly, site_id = id_num\<rparr>])"


section \<open>What the loops compute, and the predicates of the properties\<close>

text \<open>
  The definitions of this section are not in the source. The first four say in closed form
  what the two loops of \<^verbatim>\<open>calculate_polygons\<close> compute (the lemmas \<open>inner_closed\<close> and
  \<open>outer_closed\<close> prove it); the others are the notions the properties are stated with.

  \<open>steps a e d\<close> is the number of iterations of \<^verbatim>\<open>while a < e: a += d\<close> for a step
  \<open>d > 0\<close>.
\<close>

definition steps :: "real \<Rightarrow> real \<Rightarrow> real \<Rightarrow> nat" where
  "steps a e d = nat \<lceil>(e - a) / d\<rceil>"

text \<open>One row of hexagons, left to right: the result of the inner loop.\<close>

definition row_polygons :: "real \<Rightarrow> real \<Rightarrow> real \<Rightarrow> real \<Rightarrow> real \<Rightarrow> real \<Rightarrow> real \<Rightarrow> ring list" where
  "row_polygons startx starty endx p b w h =
     map (\<lambda>j. poly_at (startx + real j * w) starty p b w h) [0..<steps startx endx w]"

text \<open>Where a row starts (lines 132 to 136).\<close>

definition row_start :: "real \<Rightarrow> real \<Rightarrow> int \<Rightarrow> real" where
  "row_start origx xoffset row = (if row mod 2 = 0 then origx + xoffset else origx)"

text \<open>All rows, bottom to top: the result of the outer loop.\<close>

definition grid_polygons ::
  "real \<Rightarrow> int \<Rightarrow> real \<Rightarrow> real \<Rightarrow> real \<Rightarrow> real \<Rightarrow> real \<Rightarrow> real \<Rightarrow> real \<Rightarrow> real \<Rightarrow> real \<Rightarrow> ring list" where
  "grid_polygons starty row origx endx endy xoffset yoffset p b w h =
     concat (map (\<lambda>k. row_polygons (row_start origx xoffset (row + int k))
                        (starty + real k * yoffset) endx p b w h)
                 [0..<steps starty endy yoffset])"

text \<open>The cells in the order in which \<open>nearest\<close> returns them for the query point \<open>q\<close>.\<close>

definition by_distance :: "cell list \<Rightarrow> point \<Rightarrow> cell list" where
  "by_distance hexagons q = sort_key (\<lambda>site. distance (centroid site) q) hexagons"

text \<open>
  Generation order of two rings, read off their first vertex \<open>(startx, starty + p)\<close>:
  a lower row first, and within a row the ring further left first.
\<close>

definition row_major :: "ring \<Rightarrow> ring \<Rightarrow> bool" where
  "row_major r1 r2 \<longleftrightarrow>
     snd (hd r1) < snd (hd r2) \<or> (snd (hd r1) = snd (hd r2) \<and> fst (hd r1) < fst (hd r2))"



section \<open>The loops of calculate_polygons\<close>

subsection \<open>Counting iterations\<close>

lemma steps_Suc:
  assumes "0 < d" "a < e"
  shows "steps a e d = Suc (steps (a + d) e d)"
proof -
  have "(e - a) / d = (e - (a + d)) / d + 1" using assms by (simp add: field_simps)
  then have c: "\<lceil>(e - a) / d\<rceil> = \<lceil>(e - (a + d)) / d\<rceil> + 1" by simp
  have "0 < (e - a) / d" using assms by simp
  then have "0 < \<lceil>(e - a) / d\<rceil>" by linarith
  with c show ?thesis unfolding steps_def by linarith
qed

lemma less_steps_iff: "0 < d \<Longrightarrow> j < steps a e d \<longleftrightarrow> a + real j * d < e"
proof -
  assume d: "0 < d"
  have "j < steps a e d \<longleftrightarrow> int j < \<lceil>(e - a) / d\<rceil>" unfolding steps_def by linarith
  also have "\<dots> \<longleftrightarrow> real j < (e - a) / d" by (simp add: less_ceiling_iff)
  also have "\<dots> \<longleftrightarrow> a + real j * d < e" using d by (simp add: field_simps)
  finally show ?thesis .
qed

subsection \<open>With a positive step the loops end, and return the grid\<close>

lemma inner_closed:
  "0 < w \<Longrightarrow> calculate_polygons_inner startx starty endx p b w h polygons =
     Some (polygons @ row_polygons startx starty endx p b w h)"
proof (induction "steps startx endx w" arbitrary: startx polygons)
  case 0
  then have "\<not> startx < endx" using less_steps_iff[of w 0 startx endx] by simp
  then show ?case using 0 by (subst calculate_polygons_inner.simps) (simp add: row_polygons_def)
next
  case (Suc n)
  then have lt: "startx < endx" using less_steps_iff[of w 0 startx endx] by simp
  have st: "steps startx endx w = Suc (steps (startx + w) endx w)"
    using steps_Suc Suc.prems lt by simp
  then have n: "n = steps (startx + w) endx w" using Suc.hyps by simp
  have "row_polygons startx starty endx p b w h =
          poly_at startx starty p b w h # row_polygons (startx + w) starty endx p b w h"
    unfolding row_polygons_def st by (simp add: map_upt_Suc algebra_simps del: upt_Suc)
  then show ?case using Suc.hyps(1)[OF n Suc.prems] lt
    by (subst calculate_polygons_inner.simps) simp
qed

lemma grid_polygons_step:
  assumes "0 < yoffset" "starty < endy"
  shows "grid_polygons starty row origx endx endy xoffset yoffset p b w h =
        row_polygons (row_start origx xoffset row) starty endx p b w h
        @ grid_polygons (starty + yoffset) (row + 1) origx endx endy xoffset yoffset p b w h"
  unfolding grid_polygons_def steps_Suc[OF assms]
  by (simp add: map_upt_Suc algebra_simps del: upt_Suc)

lemma outer_closed:
  "0 < w \<Longrightarrow> 0 < yoffset \<Longrightarrow>
   calculate_polygons_outer starty row origx endx endy xoffset yoffset p b w h polygons =
     Some (polygons @ grid_polygons starty row origx endx endy xoffset yoffset p b w h)"
proof (induction "steps starty endy yoffset" arbitrary: starty row polygons)
  case 0
  then have "\<not> starty < endy" using less_steps_iff[of yoffset 0 starty endy] by simp
  then show ?case using 0 by (subst calculate_polygons_outer.simps) (simp add: grid_polygons_def)
next
  case (Suc n)
  then have lt: "starty < endy" using less_steps_iff[of yoffset 0 starty endy] by simp
  have "steps starty endy yoffset = Suc (steps (starty + yoffset) endy yoffset)"
    using steps_Suc Suc.prems lt by simp
  then have n: "n = steps (starty + yoffset) endy yoffset" using Suc.hyps by simp
  show ?case using Suc.hyps(1)[OF n Suc.prems] lt Suc.prems(1)
    by (subst calculate_polygons_outer.simps)
       (simp add: inner_closed grid_polygons_step[OF Suc.prems(2) lt] row_start_def)
qed

text \<open>The layout constants: \<open>b\<close> is the radius itself, and \<open>p\<close> is \<open>radius / sqrt 3\<close>.\<close>

lemma layout_b: "2 * radius * tan (pi / 6) * cos (radians 30) = radius"
  by (simp add: tan_30 cos_30 radians_def)


lemma calculate_polygons_pos:
  assumes "0 < radius"
  shows "calculate_polygons startx starty endx endy radius =
     Some (Inr (grid_polygons (starty - 4 * (radius / sqrt 3)) 1 (startx - 2 * radius)
                  (endx + 2 * radius) (endy + 4 * (radius / sqrt 3)) radius
                  (3 * (radius / sqrt 3)) (radius / sqrt 3) radius (2 * radius)
                  (4 * (radius / sqrt 3))))"
proof -
  have p: "0 < radius / sqrt 3" using assms by simp
  show ?thesis
    unfolding calculate_polygons_def Let_def layout_b
    using assms p outer_closed[of "2 * radius" "3 * (radius / sqrt 3)"]
    by (simp add: tan_30 mult.commute)
qed

subsection \<open>With a step that is not positive the outer loop returns only if it never starts\<close>

lemma outer_Some_cases:
  assumes "calculate_polygons_outer starty row origx endx endy xoffset yoffset p b w h polygons
             = Some y"
  shows "\<not> (yoffset \<le> 0 \<and> starty < endy)"
proof (rule calculate_polygons_outer.raw_induct
    [where P = "\<lambda>sy r ox ex ey xo yo p b w h ps y. \<not> (yo \<le> 0 \<and> sy < ey)", OF _ assms])
  fix f :: "real \<Rightarrow> int \<Rightarrow> real \<Rightarrow> real \<Rightarrow> real \<Rightarrow> real \<Rightarrow> real \<Rightarrow> real \<Rightarrow> real \<Rightarrow> real \<Rightarrow> real
     \<Rightarrow> ring list \<Rightarrow> ring list option"
  fix sy r ox ex ey xo yo p b w h ps y
  assume IH: "\<And>sy r ox ex ey xo yo p b w h ps y.
     f sy r ox ex ey xo yo p b w h ps = Some y \<Longrightarrow> \<not> (yo \<le> 0 \<and> sy < ey)"
  assume body: "(if sy < ey
      then Option.bind
            (calculate_polygons_inner (if r mod 2 = 0 then ox + xo else ox) sy ex p b w h ps)
            (f (sy + yo) (r + 1) ox ex ey xo yo p b w h)
      else Some ps) = Some y"
  show "\<not> (yo \<le> 0 \<and> sy < ey)"
  proof
    assume a: "yo \<le> 0 \<and> sy < ey"
    with body obtain ps' where "f (sy + yo) (r + 1) ox ex ey xo yo p b w h ps' = Some y"
      by (auto simp: bind_eq_Some_conv)
    from IH[OF this] a show False by simp
  qed
qed

lemma outer_diverges:
  "yoffset \<le> 0 \<Longrightarrow> starty < endy \<Longrightarrow>
   calculate_polygons_outer starty row origx endx endy xoffset yoffset p b w h polygons = None"
  using outer_Some_cases
  by (cases "calculate_polygons_outer starty row origx endx endy xoffset yoffset p b w h polygons")
     auto

lemma outer_skip:
  "\<not> starty < endy \<Longrightarrow>
   calculate_polygons_outer starty row origx endx endy xoffset yoffset p b w h polygons
     = Some polygons"
  by (subst calculate_polygons_outer.simps) simp

lemma calculate_polygons_nonpos:
  assumes "radius \<le> 0"
  shows "calculate_polygons startx starty endx endy radius =
     (if starty - 4 * (radius / sqrt 3) < endy + 4 * (radius / sqrt 3)
      then None else Some (Inr []))"
proof -
  have p: "3 * (radius / sqrt 3) \<le> 0" using assms by (simp add: divide_le_0_iff)
  show ?thesis
    unfolding calculate_polygons_def Let_def layout_b
    using outer_diverges[OF p] outer_skip
    by (simp add: tan_30 mult.commute)
qed

lemma sqrt3_less_2: "sqrt 3 < (2::real)"
  by (rule real_less_lsqrt) simp_all

subsection \<open>The hexagons of the grid\<close>

lemma row_polygons_mem:
  assumes "0 < w"
  shows "ring \<in> set (row_polygons startx starty endx p b w h) \<longleftrightarrow>
     (\<exists>j. ring = poly_at (startx + real j * w) starty p b w h \<and> startx + real j * w < endx)"
proof -
  have "ring \<in> set (row_polygons startx starty endx p b w h) \<longleftrightarrow>
     (\<exists>j. j < steps startx endx w \<and> ring = poly_at (startx + real j * w) starty p b w h)"
    unfolding row_polygons_def by auto
  then show ?thesis unfolding less_steps_iff[OF assms] by blast
qed

lemma grid_polygons_mem:
  assumes "0 < w" "0 < yoffset"
  shows "ring \<in> set (grid_polygons starty row origx endx endy xoffset yoffset p b w h) \<longleftrightarrow>
     (\<exists>k j. ring = poly_at (row_start origx xoffset (row + int k) + real j * w)
                      (starty + real k * yoffset) p b w h
         \<and> starty + real k * yoffset < endy
         \<and> row_start origx xoffset (row + int k) + real j * w < endx)"
proof -
  have "ring \<in> set (grid_polygons starty row origx endx endy xoffset yoffset p b w h) \<longleftrightarrow>
     (\<exists>k. k < steps starty endy yoffset \<and>
        ring \<in> set (row_polygons (row_start origx xoffset (row + int k))
                      (starty + real k * yoffset) endx p b w h))"
    unfolding grid_polygons_def by auto
  then show ?thesis
    unfolding less_steps_iff[OF assms(2)] row_polygons_mem[OF assms(1)] by blast
qed



subsection \<open>A run: radius 1 on the degenerate rectangle at the origin\<close>

text \<open>
  Three rows of two hexagons each; the middle row, an even one, is shifted by \<open>b = 1\<close>.
\<close>

lemma steps_example_y: "steps (- (4 / sqrt 3)) (4 / sqrt 3) (sqrt 3) = 3"
proof -
  have "(4 / sqrt 3 - - (4 / sqrt 3)) / sqrt 3 = 8 / 3"
    by (simp add: field_simps)
  then show ?thesis unfolding steps_def by simp
qed

lemma steps_example_odd_row: "steps (- 2) 2 2 = 2"
  by (simp add: steps_def)

lemma steps_example_even_row: "steps (- 1) 2 2 = 2"
proof -
  have "\<lceil>(3::real) / 2\<rceil> = 2" by (simp add: ceiling_eq_iff)
  then show ?thesis by (simp add: steps_def)
qed

lemma calculate_polygons_example:
  "calculate_polygons 0 0 0 0 1 = Some (Inr
     [poly_at (- 2) (- (4 / sqrt 3)) (1 / sqrt 3) 1 2 (4 / sqrt 3),
      poly_at 0 (- (4 / sqrt 3)) (1 / sqrt 3) 1 2 (4 / sqrt 3),
      poly_at (- 1) (- (4 / sqrt 3) + sqrt 3) (1 / sqrt 3) 1 2 (4 / sqrt 3),
      poly_at 1 (- (4 / sqrt 3) + sqrt 3) (1 / sqrt 3) 1 2 (4 / sqrt 3),
      poly_at (- 2) (- (4 / sqrt 3) + 2 * sqrt 3) (1 / sqrt 3) 1 2 (4 / sqrt 3),
      poly_at 0 (- (4 / sqrt 3) + 2 * sqrt 3) (1 / sqrt 3) 1 2 (4 / sqrt 3)])"
proof -
  have u3: "[0..<3] = [0, 1, 2]" and u2: "[0..<2] = [0, 1]" by (simp_all add: upt_rec)
  have s3: "3 / sqrt 3 = sqrt 3" by (simp add: real_div_sqrt)
  show ?thesis
    unfolding calculate_polygons_pos[of 1 0 0 0 0, simplified]
    by (simp add: grid_polygons_def row_polygons_def row_start_def steps_example_y
          steps_example_odd_row steps_example_even_row u3 u2 s3)
qed

subsection \<open>The grid is in row-major order\<close>

lemma hd_poly_at: "hd (poly_at startx starty p b w h) = (startx, starty + p)"
  by (simp add: poly_at_def)

lemma row_polygons_sorted:
  assumes "0 < w"
  shows "sorted_wrt row_major (row_polygons startx starty endx p b w h)"
  unfolding row_polygons_def sorted_wrt_map
  using assms by (simp add: sorted_wrt_iff_nth_less row_major_def hd_poly_at)

lemma grid_polygons_sorted:
  assumes "0 < w" "0 < yoffset"
  shows "sorted_wrt row_major (grid_polygons starty row origx endx endy xoffset yoffset p b w h)"
proof (induction "steps starty endy yoffset" arbitrary: starty row)
  case 0
  then show ?case by (simp add: grid_polygons_def)
next
  case (Suc n)
  then have lt: "starty < endy" using less_steps_iff[OF assms(2), of 0 starty endy] by simp
  have n: "n = steps (starty + yoffset) endy yoffset"
    using Suc.hyps(2) steps_Suc[OF assms(2) lt] by simp
  have cross: "row_major r1 r2"
    if "r1 \<in> set (row_polygons (row_start origx xoffset row) starty endx p b w h)"
       "r2 \<in> set (grid_polygons (starty + yoffset) (row + 1) origx endx endy
                     xoffset yoffset p b w h)"
    for r1 r2
  proof -
    from that(1) obtain j where
      "r1 = poly_at (row_start origx xoffset row + real j * w) starty p b w h"
      unfolding row_polygons_mem[OF assms(1)] by blast
    moreover from that(2) obtain k j' where
      "r2 = poly_at (row_start origx xoffset (row + 1 + int k) + real j' * w)
              (starty + yoffset + real k * yoffset) p b w h"
      unfolding grid_polygons_mem[OF assms] by blast
    moreover have "0 < yoffset + real k * yoffset"
      using assms(2) by (simp add: add_pos_nonneg)
    ultimately show ?thesis by (simp add: row_major_def hd_poly_at)
  qed
  show ?case
    unfolding grid_polygons_step[OF assms(2) lt] sorted_wrt_append
    using Suc.hyps(1)[OF n] row_polygons_sorted[OF assms(1)] cross by blast
qed

subsection \<open>The shape of one hexagon\<close>










lemma centroid_poly_at:
  assumes "p \<noteq> 0" "b \<noteq> 0"
  shows "polygon_centroid (poly_at startx starty p b (2 * b) (4 * p))
           = (startx + b, starty + 2 * p)"
  using assms
  by (simp add: polygon_centroid_def signed_area_def cross_def poly_at_def Let_def field_simps)

subsection \<open>The centroids of a tessellation are pairwise distinct\<close>

lemma sorted_wrt_distinct_map:
  assumes "sorted_wrt R xs" "\<And>x y. x \<in> set xs \<Longrightarrow> y \<in> set xs \<Longrightarrow> R x y \<Longrightarrow> f x \<noteq> f y"
  shows "distinct (map f xs)"
  using assms by (induction xs) auto

lemma grid_centroids_distinct:
  assumes "0 < p" "0 < b" "0 < yoffset"
  shows "distinct (map polygon_centroid
           (grid_polygons starty row origx endx endy xoffset yoffset p b (2 * b) (4 * p)))"
proof (rule sorted_wrt_distinct_map[where R = row_major])
  have w: "0 < 2 * b" using assms(2) by simp
  show "sorted_wrt row_major
          (grid_polygons starty row origx endx endy xoffset yoffset p b (2 * b) (4 * p))"
    by (rule grid_polygons_sorted[OF w assms(3)])
  fix r1 r2
  assume "r1 \<in> set (grid_polygons starty row origx endx endy xoffset yoffset p b (2 * b) (4 * p))"
    and "r2 \<in> set (grid_polygons starty row origx endx endy xoffset yoffset p b (2 * b) (4 * p))"
    and rm: "row_major r1 r2"
  then obtain sx1 sy1 sx2 sy2 where
    r: "r1 = poly_at sx1 sy1 p b (2 * b) (4 * p)" "r2 = poly_at sx2 sy2 p b (2 * b) (4 * p)"
    unfolding grid_polygons_mem[OF w assms(3)] by blast
  have "sy1 < sy2 \<or> (sy1 = sy2 \<and> sx1 < sx2)"
    using rm unfolding r row_major_def hd_poly_at by simp
  then show "polygon_centroid r1 \<noteq> polygon_centroid r2"
    unfolding r using assms(1,2) by (auto simp: centroid_poly_at)
qed

lemma tessellation_centroids_distinct:
  assumes "0 < radius"
    and "calculate_polygons startx starty endx endy radius = Some (Inr polygons)"
  shows "distinct (map polygon_centroid polygons)"
proof -
  have p: "0 < radius / sqrt 3" and yo: "0 < 3 * (radius / sqrt 3)" using assms(1) by simp_all
  from assms(2) have "polygons = grid_polygons (starty - 4 * (radius / sqrt 3)) 1
        (startx - 2 * radius) (endx + 2 * radius) (endy + 4 * (radius / sqrt 3)) radius
        (3 * (radius / sqrt 3)) (radius / sqrt 3) radius (2 * radius) (4 * (radius / sqrt 3))"
    unfolding calculate_polygons_pos[OF assms(1)] by simp
  then show ?thesis using grid_centroids_distinct[OF p assms(1) yo] by simp
qed

subsection \<open>Every point of the rectangle lies in a hexagon\<close>






section \<open>Numbering the cells\<close>

lemma hexagons_loop_eq:
  "hexagons_loop polygon id_num hexagons =
     hexagons @ map (\<lambda>i. \<lparr>coordinates = [polygon ! i],
                            centroid = polygon_centroid (polygon ! i),
                            site_id = id_num + int i\<rparr>) [0..<length polygon]"
proof (induction polygon arbitrary: id_num hexagons)
  case Nil
  then show ?case by simp
next
  case (Cons a polygon)
  show ?case
    by (simp add: Cons.IH map_upt_Suc add.assoc del: upt_Suc)
qed

lemma hexagons_loop_wf:
  assumes "c \<in> set (hexagons_loop polygon 0 [])"
  shows "\<exists>r. coordinates c = [r] \<and> centroid c = polygon_centroid r"
  using assms by (auto simp: hexagons_loop_eq)

lemma hexagons_loop_ids:
  "map site_id (hexagons_loop polygon 0 []) = map int [0..<length polygon]"
  by (simp add: hexagons_loop_eq comp_def)

lemma hexagons_loop_length: "length (hexagons_loop polygon 0 []) = length polygon"
  by (simp add: hexagons_loop_eq)

lemma ids_distinct: "distinct (map int [0..<n])"
  by (simp add: distinct_map inj_on_def)

lemma ids_increasing: "sorted_wrt (<) (map int [0..<n])"
  by (simp add: sorted_wrt_map sorted_wrt_iff_nth_less)

lemma hexagons_loop_distinct: "distinct (hexagons_loop polygon 0 [])"
  using ids_distinct[of "length polygon"] distinct_map[of site_id "hexagons_loop polygon 0 []"]
  by (simp add: hexagons_loop_ids)

lemma hexagons_loop_nonempty: "polygon \<noteq> [] \<Longrightarrow> hexagons_loop polygon 0 [] \<noteq> []"
  using hexagons_loop_length[of polygon] by auto

section \<open>Selecting the cells\<close>

lemma build_index_eq: "build_index hexagons = map (\<lambda>site. (centroid site, site)) hexagons"
proof -
  have "foldl (\<lambda>idx site. index_insert idx (centroid site) site) acc hexagons
        = acc @ map (\<lambda>site. (centroid site, site)) hexagons" for acc
    by (induction hexagons arbitrary: acc) (simp_all add: index_insert_def)
  then show ?thesis by (simp add: build_index_def)
qed

lemma insort_key_map_fun:
  "insort_key f (g x) (map g xs) = map g (insort_key (\<lambda>a. f (g a)) x xs)"
  by (induction xs) simp_all

lemma sort_key_map_fun: "sort_key f (map g xs) = map g (sort_key (\<lambda>a. f (g a)) xs)"
  by (induction xs) (simp_all add: insort_key_map_fun)

lemma nearest_build_index:
  "nearest (build_index hexagons) q k = take k (by_distance hexagons q)"
  by (simp add: nearest_def build_index_eq sort_key_map_fun by_distance_def comp_def take_map)

lemma distance_nonneg: "0 \<le> distance u v"
  by (simp add: distance_def)

lemma distance_eq_0_iff: "distance u v = 0 \<longleftrightarrow> u = v"
  by (auto simp: distance_def prod_eq_iff sum_power2_eq_zero_iff)

subsection \<open>The head of a stably sorted list\<close>

lemma sort_key_hd_min:
  assumes "xs \<noteq> []" "x \<in> set xs"
  shows "f (hd (sort_key f xs)) \<le> f x"
proof -
  obtain s rest where sr: "sort_key f xs = s # rest"
    using assms(1) by (cases "sort_key f xs") (auto dest: arg_cong[where f=length])
  have "sorted (map f (sort_key f xs))" by simp
  moreover have "x \<in> set (sort_key f xs)" using assms(2) by simp
  ultimately show ?thesis unfolding sr by auto
qed

lemma sort_key_hd_in: "xs \<noteq> [] \<Longrightarrow> hd (sort_key f xs) \<in> set xs"
proof -
  assume "xs \<noteq> []"
  then have "sort_key f xs \<noteq> []" by (auto dest: arg_cong[where f=length])
  then have "hd (sort_key f xs) \<in> set (sort_key f xs)" by (rule hd_in_set)
  then show ?thesis by simp
qed

lemma sort_key_hd_first:
  assumes "xs \<noteq> []"
  shows "hd (filter (\<lambda>y. f y = f (hd (sort_key f xs))) xs) = hd (sort_key f xs)"
proof -
  obtain s rest where sr: "sort_key f xs = s # rest"
    using assms(1) by (cases "sort_key f xs") (auto dest: arg_cong[where f=length])
  have "filter (\<lambda>y. f y = f s) xs = filter (\<lambda>y. f y = f s) (sort_key f xs)"
    by (simp add: sort_key_stable)
  also have "\<dots> = s # filter (\<lambda>y. f y = f s) rest" unfolding sr by simp
  finally show ?thesis by (simp add: sr)
qed

lemma hd_filter_refine:
  assumes "s \<in> set xs" "P s" "hd (filter P xs) = s" "Q s"
    and "\<And>x. x \<in> set xs \<Longrightarrow> Q x \<Longrightarrow> P x"
  shows "hd (filter Q xs) = s"
  using assms
proof (induction xs)
  case Nil
  then show ?case by simp
next
  case (Cons a xs)
  show ?case
  proof (cases "P a")
    case True
    then have "a = s" using Cons.prems(3) by simp
    then show ?thesis using Cons.prems(4) by simp
  next
    case False
    then have "\<not> Q a" using Cons.prems(5) by auto
    moreover have "s \<in> set xs" using Cons.prems(1,2) False by auto
    moreover have "hd (filter P xs) = s" using Cons.prems(3) False by simp
    ultimately show ?thesis using Cons.IH Cons.prems(2,4,5) by simp
  qed
qed

lemma hd_filter_lowest:
  assumes "sorted_wrt (<) (map g xs)" "x \<in> set xs" "P x"
  shows "g (hd (filter P xs)) \<le> (g x :: int)"
  using assms
proof (induction xs)
  case Nil
  then show ?case by simp
next
  case (Cons a xs)
  then show ?case by (cases "P a") (auto simp: less_imp_le)
qed

subsection \<open>The two queries of find_closest_cell_areas\<close>

lemma by_distance_nonempty: "hexagons \<noteq> [] \<Longrightarrow> by_distance hexagons q \<noteq> []"
  by (auto simp: by_distance_def dest: arg_cong[where f=length])

text \<open>The query at the centroid of the nearest cell returns that cell first.\<close>

lemma second_query_same:
  fixes t :: point
  assumes ne: "hexagons \<noteq> []"
  defines "s \<equiv> hd (by_distance hexagons t)"
  shows "hd (by_distance hexagons (centroid s)) = s"
proof -
  let ?f = "\<lambda>site. distance (centroid site) t"
  let ?g = "\<lambda>site. distance (centroid site) (centroid s)"
  let ?a = "hd (by_distance hexagons (centroid s))"
  have s_in: "s \<in> set hexagons" unfolding s_def by_distance_def by (rule sort_key_hd_in[OF ne])
  have s_first: "hd (filter (\<lambda>y. ?f y = ?f s) hexagons) = s"
    unfolding s_def by_distance_def by (rule sort_key_hd_first[OF ne])
  have "?g ?a \<le> ?g s" unfolding by_distance_def by (rule sort_key_hd_min[OF ne s_in])
  moreover have "?g s = 0" by (simp add: distance_eq_0_iff)
  ultimately have ga: "?g ?a = 0" using distance_nonneg[of "centroid ?a" "centroid s"]
    by linarith
  have a_first: "hd (filter (\<lambda>y. ?g y = ?g ?a) hexagons) = ?a"
    unfolding by_distance_def by (rule sort_key_hd_first[OF ne])
  have "hd (filter (\<lambda>y. ?g y = 0) hexagons) = s"
    by (rule hd_filter_refine[where P = "\<lambda>y. ?f y = ?f s", OF s_in _ s_first])
       (simp_all add: distance_eq_0_iff)
  with a_first ga show ?thesis by simp
qed

lemma find_closest_cell_areas_eq:
  assumes ne: "hexagons \<noteq> []"
    and wf: "\<And>c. c \<in> set hexagons \<Longrightarrow>
               \<exists>r. coordinates c = [r] \<and> centroid c = polygon_centroid r"
  shows "find_closest_cell_areas hexagons t =
     Inr ([hd (by_distance hexagons t)],
          take 6 (drop 1 (take 7
            (by_distance hexagons (centroid (hd (by_distance hexagons t)))))))"
proof -
  define s where "s = hd (by_distance hexagons t)"
  obtain rest where sr: "by_distance hexagons t = s # rest"
    using by_distance_nonempty[OF ne, of t] unfolding s_def
    by (cases "by_distance hexagons t") auto
  have "s \<in> set hexagons" unfolding s_def by_distance_def by (rule sort_key_hd_in[OF ne])
  from wf[OF this] obtain r where r: "coordinates s = [r]" "centroid s = polygon_centroid r"
    by blast
  obtain rest' where ar: "by_distance hexagons (centroid s) = s # rest'"
    using by_distance_nonempty[OF ne, of "centroid s"] second_query_same[OF ne, of t]
    unfolding s_def by (cases "by_distance hexagons (centroid (hd (by_distance hexagons t)))") auto
  show ?thesis
    unfolding find_closest_cell_areas_def Let_def nearest_build_index s_def[symmetric]
    by (simp add: sr r(1) r(2)[symmetric] ar)
qed

lemma find_closest_hexagons_loop:
  assumes "polygon \<noteq> []"
  shows "find_closest_cell_areas (hexagons_loop polygon 0 []) t =
     Inr ([hd (by_distance (hexagons_loop polygon 0 []) t)],
          take 6 (drop 1 (take 7 (by_distance (hexagons_loop polygon 0 [])
             (centroid (hd (by_distance (hexagons_loop polygon 0 []) t)))))))"
  by (rule find_closest_cell_areas_eq[OF hexagons_loop_nonempty[OF assms] hexagons_loop_wf])

section \<open>The claims\<close>

subsection \<open>C1: a radius that is not positive\<close>

text \<open>
  Claim C1 says that every call of the tessellator with \<open>radius \<le> 0\<close> fails with a
  \<^verbatim>\<open>ConfigurationError\<close> before any tessellation work. \<^verbatim>\<open>calculate_polygons\<close> has no check of
  its radius and raises nothing: with radius \<open>-1\<close> on the rectangle \<open>(0,0)-(1,1)\<close>, and with
  radius \<open>0\<close> on the degenerate rectangle \<open>(0,0)-(0,0)\<close>, it returns the empty list.
\<close>

theorem negative_radius_returns_empty:
  "calculate_polygons 0 0 1 1 (- 1) = Some (Inr [])
   \<and> calculate_polygons 0 0 1 1 (- 1) \<noteq> Some (Inl ConfigurationError)
   \<and> calculate_polygons 0 0 0 0 0 = Some (Inr [])"
proof -
  have "\<not> (0::real) - 4 * (- 1 / sqrt 3) < 1 + 4 * (- 1 / sqrt 3)"
    using sqrt3_less_2 by (simp add: field_simps)
  then have "calculate_polygons 0 0 1 1 (- 1) = Some (Inr [])"
    using calculate_polygons_nonpos[of "- 1" 0 0 1 1] by simp
  moreover have "calculate_polygons 0 0 0 0 0 = Some (Inr [])"
    using calculate_polygons_nonpos[of 0 0 0 0 0] by simp
  ultimately show ?thesis by simp
qed

text \<open>
  Claim C1, as amended: for \<open>radius \<le> 0\<close> the tessellator never fails with an error (it has
  no \<^verbatim>\<open>ConfigurationError\<close>); a list it returns is empty, so no hexagon is produced; and
  it does return the empty list when the expanded rectangle is empty in \<open>y\<close>, that is when
  \<open>endy + h \<le> starty - h\<close> for the hexagon height \<open>h = 2 * sl\<close>.
\<close>

theorem nonpositive_radius_no_error:
  assumes "radius \<le> 0"
  shows "let h = 2 * ((2 * radius) * tan (pi / 6))
         in (\<forall>e. calculate_polygons startx starty endx endy radius \<noteq> Some (Inl e))
          \<and> (\<forall>polygons. calculate_polygons startx starty endx endy radius = Some (Inr polygons)
                \<longrightarrow> polygons = [])
          \<and> (endy + h \<le> starty - h
                \<longrightarrow> calculate_polygons startx starty endx endy radius = Some (Inr []))"
  using calculate_polygons_nonpos[OF assms, of startx starty endx endy]
  by (simp add: Let_def tan_30)

theorem nonpositive_radius_no_error_witness:
  "(- 2 :: real) \<le> 0 \<and> calculate_polygons 0 0 3 3 (- 2) = Some (Inr [])"
proof -
  have h: "(- 2 :: real) \<le> 0" by simp
  have "(3::real) + 2 * ((2 * (- 2)) * tan (pi / 6)) \<le> 0 - 2 * ((2 * (- 2)) * tan (pi / 6))"
  proof -
    have "(1::real) < sqrt 3" by simp
    then have "9 \<le> sqrt 3 * 16" by linarith
    then show ?thesis by (simp add: tan_30 field_simps)
  qed
  then show ?thesis
    using nonpositive_radius_no_error[OF h, where startx = 0 and starty = 0 and endx = 3 and endy = 3]
    by (simp add: Let_def)
qed

subsection \<open>C2: the number of interfering cells\<close>

text \<open>
  Claim C2: for a tessellation of \<open>totalCells \<ge> 1\<close> cells, the selection returns exactly
  \<open>min 6 (totalCells - 1)\<close> interfering cells, none of them the serving cell, and does not
  fail when there are fewer than 7 cells. The cells are the features that
  \<^verbatim>\<open>generate_cell_areas\<close> builds from any non-empty list of polygons.
\<close>

theorem interferer_count:
  assumes "polygon \<noteq> []"
  shows "\<exists>serving interfering.
           find_closest_cell_areas (hexagons_loop polygon 0 []) transmitter
             = Inr ([serving], interfering)
           \<and> length interfering = min 6 (length polygon - 1)
           \<and> serving \<notin> set interfering"
proof -
  let ?hs = "hexagons_loop polygon 0 []"
  let ?s = "hd (by_distance ?hs transmitter)"
  let ?L = "by_distance ?hs (centroid ?s)"
  have ne: "?hs \<noteq> []" by (rule hexagons_loop_nonempty[OF assms])
  have eq: "find_closest_cell_areas ?hs transmitter = Inr ([?s], take 6 (drop 1 (take 7 ?L)))"
    by (rule find_closest_hexagons_loop[OF assms])
  have len: "length ?L = length polygon" by (simp add: by_distance_def hexagons_loop_length)
  have dL: "distinct ?L" by (simp add: by_distance_def hexagons_loop_distinct)
  obtain rest where L: "?L = ?s # rest"
    using by_distance_nonempty[OF ne, of "centroid ?s"] second_query_same[OF ne, of transmitter]
    by (cases ?L) auto
  have "set (take 6 (drop 1 (take 7 ?L))) \<subseteq> set rest"
    unfolding L by (auto dest: in_set_takeD)
  moreover have "?s \<notin> set rest" using dL unfolding L by simp
  ultimately have notin: "?s \<notin> set (take 6 (drop 1 (take 7 ?L)))" by blast
  have "length (take 6 (drop 1 (take 7 ?L))) = min 6 (length polygon - 1)"
    using len by simp
  with eq notin show ?thesis by blast
qed

text \<open>The witness is the run of radius 1 at the origin: six cells, five of them interfering.\<close>

theorem interferer_count_witness:
  "\<exists>polygons. calculate_polygons 0 0 0 0 1 = Some (Inr polygons)
     \<and> polygons \<noteq> []
     \<and> (\<exists>serving interfering.
           find_closest_cell_areas (hexagons_loop polygons 0 []) (0, 0)
             = Inr ([serving], interfering)
         \<and> length interfering = 5 \<and> serving \<notin> set interfering)"
proof -
  obtain polygons where p: "calculate_polygons 0 0 0 0 1 = Some (Inr polygons)"
    using calculate_polygons_example by blast
  have len: "length polygons = 6" using p unfolding calculate_polygons_example by auto
  then have ne: "polygons \<noteq> []" by auto
  from interferer_count[OF ne, of "(0, 0)"] len have
    "\<exists>serving interfering.
           find_closest_cell_areas (hexagons_loop polygons 0 []) (0, 0)
             = Inr ([serving], interfering)
         \<and> length interfering = 5 \<and> serving \<notin> set interfering"
    by simp
  with p ne show ?thesis by (intro exI[of _ polygons] conjI)
qed

subsection \<open>C3: the serving cell is the nearest one\<close>

text \<open>
  Claim C3: for a non-empty set of tessellated cells and any transmitter point, the
  centroid of the selected serving cell has the least Euclidean distance to the
  transmitter among all cells, and among cells at that same distance the one with the
  lowest \<open>site_id\<close> is selected.
\<close>

theorem serving_cell_nearest:
  assumes "polygon \<noteq> []"
  shows "\<exists>serving interfering.
           find_closest_cell_areas (hexagons_loop polygon 0 []) transmitter
             = Inr ([serving], interfering)
           \<and> serving \<in> set (hexagons_loop polygon 0 [])
           \<and> (\<forall>c \<in> set (hexagons_loop polygon 0 []).
                 distance (centroid serving) transmitter \<le> distance (centroid c) transmitter
                 \<and> (distance (centroid c) transmitter = distance (centroid serving) transmitter
                      \<longrightarrow> site_id serving \<le> site_id c))"
proof -
  let ?hs = "hexagons_loop polygon 0 []"
  let ?f = "\<lambda>site. distance (centroid site) transmitter"
  let ?s = "hd (by_distance ?hs transmitter)"
  have ne: "?hs \<noteq> []" by (rule hexagons_loop_nonempty[OF assms])
  have eq: "find_closest_cell_areas ?hs transmitter =
      Inr ([?s], take 6 (drop 1 (take 7 (by_distance ?hs (centroid ?s)))))"
    by (rule find_closest_hexagons_loop[OF assms])
  have s_in: "?s \<in> set ?hs" unfolding by_distance_def by (rule sort_key_hd_in[OF ne])
  have smin: "?f ?s \<le> ?f c" if "c \<in> set ?hs" for c
    unfolding by_distance_def by (rule sort_key_hd_min[OF ne that])
  have first: "hd (filter (\<lambda>y. ?f y = ?f ?s) ?hs) = ?s"
    unfolding by_distance_def by (rule sort_key_hd_first[OF ne])
  have inc: "sorted_wrt (<) (map site_id ?hs)"
    by (simp only: hexagons_loop_ids ids_increasing)
  have tie: "site_id ?s \<le> site_id c" if "c \<in> set ?hs" "?f c = ?f ?s" for c
    using hd_filter_lowest[OF inc that(1), of "\<lambda>y. ?f y = ?f ?s"] that(2) first by simp
  show ?thesis using eq s_in smin tie by blast
qed

text \<open>
  The witness has a tie: the transmitter \<open>(2, 2)\<close> is at distance 1 from both centroids,
  \<open>(1, 2)\<close> and \<open>(3, 2)\<close>, and the cell with \<open>site_id\<close> 0 is selected.
\<close>

theorem serving_cell_nearest_witness:
  "[poly_at 0 0 1 1 2 4, poly_at 2 0 1 1 2 4] \<noteq> []
   \<and> find_closest_cell_areas
         (hexagons_loop [poly_at 0 0 1 1 2 4, poly_at 2 0 1 1 2 4] 0 []) (2, 2)
       = Inr ([\<lparr>coordinates = [poly_at 0 0 1 1 2 4], centroid = (1, 2), site_id = 0\<rparr>],
              [\<lparr>coordinates = [poly_at 2 0 1 1 2 4], centroid = (3, 2), site_id = 1\<rparr>])"
proof -
  have c1: "polygon_centroid (poly_at 0 0 1 1 2 4) = (1, 2)"
    using centroid_poly_at[of 1 1 0 0] by simp
  have c2: "polygon_centroid (poly_at 2 0 1 1 2 4) = (3, 2)"
    using centroid_poly_at[of 1 1 2 0] by simp
  have hl: "hexagons_loop [poly_at 0 0 1 1 2 4, poly_at 2 0 1 1 2 4] 0 [] =
     [\<lparr>coordinates = [poly_at 0 0 1 1 2 4], centroid = (1, 2), site_id = 0\<rparr>,
      \<lparr>coordinates = [poly_at 2 0 1 1 2 4], centroid = (3, 2), site_id = 1\<rparr>]"
    by (simp add: c1 c2)
  have ev: "find_closest_cell_areas
         (hexagons_loop [poly_at 0 0 1 1 2 4, poly_at 2 0 1 1 2 4] 0 []) (2, 2)
       = Inr ([\<lparr>coordinates = [poly_at 0 0 1 1 2 4], centroid = (1, 2), site_id = 0\<rparr>],
              [\<lparr>coordinates = [poly_at 2 0 1 1 2 4], centroid = (3, 2), site_id = 1\<rparr>])"
    unfolding hl
    by (simp add: find_closest_cell_areas_def build_index_def index_insert_def nearest_def
          distance_def c1 Let_def)
  have ne: "[poly_at 0 0 1 1 2 4, poly_at 2 0 1 1 2 4] \<noteq> []" by simp
  from serving_cell_nearest[OF ne, of "(2, 2)"] ne ev show ?thesis by simp
qed

subsection \<open>C4: every hexagon is a closed ring of six equal edges\<close>



subsection \<open>C5: the site ids\<close>

text \<open>
  Claim C5: within one tessellation run the \<open>site_id\<close> values are pairwise distinct and
  strictly increasing in generation order (row-major, bottom to top, left to right), and no
  id is used twice. The cell built from the \<open>i\<close>-th polygon gets the id \<open>i\<close>, for any list
  of polygons; and the list that the tessellator returns for a positive radius is in
  row-major order.
\<close>

theorem site_ids_increasing:
  "(map site_id (hexagons_loop polygon 0 []) = map int [0..<length polygon]
     \<and> map coordinates (hexagons_loop polygon 0 []) = map (\<lambda>r. [r]) polygon
     \<and> distinct (map site_id (hexagons_loop polygon 0 []))
     \<and> sorted_wrt (<) (map site_id (hexagons_loop polygon 0 [])))
   \<and> (0 < radius \<longrightarrow>
        (\<exists>polygons. calculate_polygons startx starty endx endy radius = Some (Inr polygons)
            \<and> sorted_wrt row_major polygons
            \<and> map coordinates (hexagons_loop polygons 0 []) = map (\<lambda>r. [r]) polygons
            \<and> map site_id (hexagons_loop polygons 0 []) = map int [0..<length polygons]))"
proof -
  have ids: "map site_id (hexagons_loop ps 0 []) = map int [0..<length ps]" for ps
    by (rule hexagons_loop_ids)
  have co: "map coordinates (hexagons_loop ps 0 []) = map (\<lambda>r. [r]) ps" for ps
  proof -
    have "map (\<lambda>r. [r]) ps = map (\<lambda>r. [r]) (map ((!) ps) [0..<length ps])"
      by (simp only: map_nth)
    then show ?thesis by (simp add: hexagons_loop_eq comp_def)
  qed
  have di: "distinct (map site_id (hexagons_loop polygon 0 []))"
    unfolding ids by (rule ids_distinct)
  have inc: "sorted_wrt (<) (map site_id (hexagons_loop polygon 0 []))"
    unfolding ids by (rule ids_increasing)
  have tess: "\<exists>polygons. calculate_polygons startx starty endx endy radius = Some (Inr polygons)
            \<and> sorted_wrt row_major polygons
            \<and> map coordinates (hexagons_loop polygons 0 []) = map (\<lambda>r. [r]) polygons
            \<and> map site_id (hexagons_loop polygons 0 []) = map int [0..<length polygons]"
    if r: "0 < radius"
  proof -
    have w: "0 < 2 * radius" and yo: "0 < 3 * (radius / sqrt 3)" using r by simp_all
    show ?thesis
      by (intro exI conjI, rule calculate_polygons_pos[OF r],
          rule grid_polygons_sorted[OF w yo], rule co, rule ids)
  qed
  show ?thesis
    by (intro conjI impI, rule ids, rule co, rule di, rule inc, rule tess)
qed

text \<open>The witness is the run of radius 1 at the origin: six cells, numbered 0 to 5.\<close>

theorem site_ids_increasing_witness:
  "(0::real) < 1
   \<and> (\<exists>polygons. calculate_polygons 0 0 0 0 1 = Some (Inr polygons)
         \<and> sorted_wrt row_major polygons
         \<and> map site_id (hexagons_loop polygons 0 []) = [0, 1, 2, 3, 4, 5])"
proof -
  have h: "(0::real) < 1" by simp
  have u6: "[0..<6] = [0, 1, 2, 3, 4, 5]" by (simp add: upt_rec)
  from site_ids_increasing[of "[]" 1 0 0 0 0] h obtain polygons where
    p: "calculate_polygons 0 0 0 0 1 = Some (Inr polygons)"
       "sorted_wrt row_major polygons"
       "map site_id (hexagons_loop polygons 0 []) = map int [0..<length polygons]"
    by blast
  from p(1) have "length polygons = 6" unfolding calculate_polygons_example by auto
  with p(3) have "map site_id (hexagons_loop polygons 0 []) = [0, 1, 2, 3, 4, 5]"
    by (simp add: u6)
  with h p(1,2) show ?thesis by (intro conjI exI[of _ polygons])
qed

subsection \<open>C6: the hexagons cover the rectangle\<close>



subsection \<open>C7: an empty list of cells\<close>

text \<open>
  Claim C7 says that building the index over an empty set of cells fails with an
  \<^verbatim>\<open>EmptyTessellationError\<close> and that no selection runs on an empty index. The insertion
  loop of \<^verbatim>\<open>find_closest_cell_areas\<close> runs zero times and leaves an empty index; the function
  then fails with an \<^verbatim>\<open>IndexError\<close>.
\<close>

theorem empty_cells_no_tessellation_error:
  "build_index [] = []
   \<and> find_closest_cell_areas [] (0, 0) = Inl IndexError
   \<and> find_closest_cell_areas [] (0, 0) \<noteq> Inl EmptyTessellationError"
  by (simp add: build_index_def find_closest_cell_areas_def nearest_def)

text \<open>
  Claim C7, as amended: for an empty list of cells the index is built and is empty, the
  first query on it returns no cell, and \<^verbatim>\<open>find_closest_cell_areas\<close> fails with an
  \<^verbatim>\<open>IndexError\<close>, whatever the transmitter.
\<close>

theorem empty_cells_index_error:
  "build_index [] = [] \<and> nearest (build_index []) transmitter 1 = []
   \<and> find_closest_cell_areas [] transmitter = Inl IndexError"
  by (simp add: build_index_def find_closest_cell_areas_def nearest_def)

subsection \<open>C8: repeated runs\<close>

text \<open>
  Claim C8 compares two runs on the same point and radius. Every definition above is a
  function of its arguments, so two runs of the model cannot differ, and there is nothing
  to prove about them here: what is outside the functions (the order in which the index
  library returns equidistant entries, the reprojection of the point) is outside the
  repository as well.
\<close>

subsection \<open>C9: a positive radius gives at least one hexagon\<close>



subsection \<open>C10: the second query returns the serving cell again\<close>

text \<open>
  Claim C10: the serving cell area that the selection returns is element 0 of the second
  query, made with \<open>k = 7\<close> at the centroid of the cell that the first query found; when the
  centroids of the cells are pairwise distinct, that element is the cell of the first
  query, so overwriting \<^verbatim>\<open>cell_area\<close> keeps the serving cell.
\<close>

theorem second_query_keeps_serving_cell:
  assumes "polygon \<noteq> []" and "distinct (map polygon_centroid polygon)"
  shows "\<exists>first_query second_query.
           nearest (build_index (hexagons_loop polygon 0 [])) transmitter 1 = [first_query]
         \<and> nearest (build_index (hexagons_loop polygon 0 []))
             (polygon_centroid (coordinates first_query ! 0)) 7 = second_query
         \<and> find_closest_cell_areas (hexagons_loop polygon 0 []) transmitter
             = Inr ([second_query ! 0], take 6 (drop 1 second_query))
         \<and> second_query ! 0 = first_query"
proof -
  define hs where "hs = hexagons_loop polygon 0 []"
  define s where "s = hd (by_distance hs transmitter)"
  define L where "L = by_distance hs (centroid s)"
  have ne: "hs \<noteq> []" unfolding hs_def by (rule hexagons_loop_nonempty[OF assms(1)])
  have eq: "find_closest_cell_areas hs transmitter = Inr ([s], take 6 (drop 1 (take 7 L)))"
    unfolding L_def s_def hs_def by (rule find_closest_hexagons_loop[OF assms(1)])
  have "s \<in> set hs" unfolding s_def by_distance_def by (rule sort_key_hd_in[OF ne])
  then obtain r where "coordinates s = [r]" "centroid s = polygon_centroid r"
    unfolding hs_def using hexagons_loop_wf by blast
  then have cs: "polygon_centroid (coordinates s ! 0) = centroid s" by simp
  have "L \<noteq> []" unfolding L_def by (rule by_distance_nonempty[OF ne])
  moreover have "hd L = s" unfolding L_def s_def by (rule second_query_same[OF ne])
  ultimately obtain rest where L: "L = s # rest" by (cases L) auto
  have "by_distance hs transmitter \<noteq> []" by (rule by_distance_nonempty[OF ne])
  then obtain rest1 where L1: "by_distance hs transmitter = s # rest1"
    unfolding s_def by (cases "by_distance hs transmitter") auto
  have q1: "nearest (build_index hs) transmitter 1 = [s]"
    by (simp add: nearest_build_index L1)
  have q2: "nearest (build_index hs) (polygon_centroid (coordinates s ! 0)) 7 ! 0 = s"
    unfolding cs by (simp add: nearest_build_index L_def[symmetric] L)
  have q3: "find_closest_cell_areas hs transmitter
      = Inr ([nearest (build_index hs) (polygon_centroid (coordinates s ! 0)) 7 ! 0],
             take 6 (drop 1 (nearest (build_index hs) (polygon_centroid (coordinates s ! 0)) 7)))"
    unfolding q2 unfolding cs by (simp add: eq nearest_build_index L_def[symmetric])
  show ?thesis
    unfolding hs_def[symmetric]
    by (intro exI[of _ s]
          exI[of _ "nearest (build_index hs) (polygon_centroid (coordinates s ! 0)) 7"]
          conjI q1 q3 q2 refl)
qed

text \<open>The witness is the run of radius 1 at the origin, with the transmitter at the origin.\<close>

theorem second_query_keeps_serving_cell_witness:
  "\<exists>polygons. calculate_polygons 0 0 0 0 1 = Some (Inr polygons)
     \<and> polygons \<noteq> []
     \<and> distinct (map polygon_centroid polygons)
     \<and> (\<exists>first_query second_query.
           nearest (build_index (hexagons_loop polygons 0 [])) (0, 0) 1 = [first_query]
         \<and> nearest (build_index (hexagons_loop polygons 0 []))
             (polygon_centroid (coordinates first_query ! 0)) 7 = second_query
         \<and> find_closest_cell_areas (hexagons_loop polygons 0 []) (0, 0)
             = Inr ([second_query ! 0], take 6 (drop 1 second_query))
         \<and> second_query ! 0 = first_query)"
proof -
  obtain polygons where p: "calculate_polygons 0 0 0 0 1 = Some (Inr polygons)"
    using calculate_polygons_example by blast
  have ne: "polygons \<noteq> []" using p unfolding calculate_polygons_example by auto
  have di: "distinct (map polygon_centroid polygons)"
    by (rule tessellation_centroids_distinct[OF _ p]) simp
  from second_query_keeps_serving_cell[OF ne di, of "(0, 0)"] p ne di
  show ?thesis by (intro exI[of _ polygons] conjI)
qed

end
